theory Spec2Isabelle
  imports Main "HOL-Library.Char_ord" "HOL-Library.List_Lexorder" "HOL-Library.Sublist"
    "HOL-Library.Multiset"
begin

section \<open>The reStructuredText documentation generator (internal/docs/rest/rest.go)\<close>

text \<open>
  A Go string is a sequence of bytes, and so is a HOL \<^typ>\<open>string\<close>: \<open>len(s)\<close> is
  \<^term>\<open>length s\<close>, and \<open><\<close> on strings is the bytewise lexicographic order
  (the order of \<open>HOL-Library.List_Lexorder\<close> over \<open>HOL-Library.Char_ord\<close>).
\<close>

subsection \<open>Commands of the CLI framework\<close>

text \<open>
  The command tree belongs to the framework (github.com/spf13/cobra), which is not part of
  this package. A node carries the values that the accessors used by rest.go return:
  \<open>Name()\<close>, \<open>Short\<close>, \<open>Long\<close>, \<open>Example\<close>, \<open>UseLine()\<close>, \<open>Runnable()\<close>,
  \<open>IsAvailableCommand()\<close>, \<open>IsAdditionalHelpTopicCommand()\<close>, \<open>DisableAutoGenTag\<close>,
  \<open>NonInheritedFlags()\<close> and \<open>InheritedFlags()\<close>. The type \<open>'f\<close> is the framework's
  flag set. \<open>Commands()\<close> is the list of children, in the order the tree stores them.

  The parent pointer becomes the chain of ancestors that is handed down while the tree is
  walked: the list of the ancestors' nodes, the direct parent first. Every function
  below that reads \<open>cmd.Parent()\<close>, \<open>cmd.HasParent()\<close>, \<open>cmd.CommandPath()\<close> or
  \<open>cmd.VisitParents\<close> takes that chain as its argument \<open>ps\<close>.
\<close>

record 'f info =
  Name :: string
  Short :: string
  Long :: string
  Example :: string
  UseLine :: string
  Runnable :: bool
  IsAvailableCommand :: bool
  IsAdditionalHelpTopicCommand :: bool
  DisableAutoGenTag :: bool
  NonInheritedFlags :: 'f
  InheritedFlags :: 'f

datatype 'f command = Command (info: "'f info") (Commands: "'f command list")

definition HasParent :: "'f info list \<Rightarrow> bool" where
  "HasParent ps = (ps \<noteq> [])"

text \<open>
  \<open>CommandPath()\<close>: the parent's path, a space and the command's name, or the name alone
  for a command without parent. \<open>path_of\<close> takes the chain with the command's own node
  in front.
\<close>

fun path_of :: "'f info list \<Rightarrow> string" where
  "path_of [] = []"
| "path_of [i] = Name i"
| "path_of (i # p # ps) = path_of (p # ps) @ '' '' @ Name i"

definition CommandPath :: "'f info list \<Rightarrow> 'f command \<Rightarrow> string" where
  "CommandPath ps cmd = path_of (info cmd # ps)"

text \<open>\<open>VisitParents(fn)\<close> calls \<open>fn\<close> on the parent, then on the parent's parent, and so on.\<close>

fun VisitParents :: "'f info list \<Rightarrow> ('f info \<Rightarrow> 's \<Rightarrow> 's) \<Rightarrow> 's \<Rightarrow> 's" where
  "VisitParents [] fn s = s"
| "VisitParents (p # ps) fn s = VisitParents ps fn (fn p s)"

definition set_DisableAutoGenTag :: "bool \<Rightarrow> 'f command \<Rightarrow> 'f command" where
  "set_DisableAutoGenTag v cmd = Command ((info cmd)\<lparr>DisableAutoGenTag := v\<rparr>) (Commands cmd)"

subsection \<open>Files, clock and the rest of the environment\<close>

datatype error = IOError string

text \<open>
  The file system is the sequence of the operations that succeeded, oldest first.
  A failed \<open>os.Create\<close> or write leaves no event.
\<close>

datatype event = Create string | Write string string | Close string

type_synonym world = "event list"

type_synonym writer = "world \<Rightarrow> string \<Rightarrow> world \<times> error option"

datatype month = January | February | March | April | May | June | July | August
  | September | October | November | December

record date =
  Day :: nat
  Month :: month
  Year :: nat

text \<open>
  What rest.go takes from outside the file: the two framework calls that open
  \<open>GenCustom\<close>, the flag set's \<open>HasAvailableFlags()\<close>, the package's \<open>FlagUsages\<close>
  (defined in another file), \<open>sort.Sort\<close>, \<open>filepath.Join\<close>, the clock, and whether
  creating or writing a file fails in a given state of the file system.
  \<open>sort_Sort E lt xs\<close> is the slice \<open>xs\<close> after \<open>sort.Sort\<close> with \<open>lt\<close> as its \<open>Less\<close>;
  the library promises an ascending permutation and no order among equal elements, and
  what depends on the order assumes that much of it and no more.
\<close>

record 'f env =
  InitDefaultHelpCmd :: "'f info list \<Rightarrow> 'f command \<Rightarrow> 'f command"
  InitDefaultHelpFlag :: "'f info list \<Rightarrow> 'f command \<Rightarrow> 'f command"
  HasAvailableFlags :: "'f \<Rightarrow> bool"
  FlagUsages :: "'f \<Rightarrow> string"
  sort_Sort :: "('f command \<Rightarrow> 'f command \<Rightarrow> bool) \<Rightarrow> 'f command list \<Rightarrow> 'f command list"
  filepath_Join :: "string \<Rightarrow> string \<Rightarrow> string"
  time_Now :: "world \<Rightarrow> date"
  os_Create_err :: "world \<Rightarrow> string \<Rightarrow> error option"
  file_Write_err :: "world \<Rightarrow> string \<Rightarrow> string \<Rightarrow> error option"

definition os_Create :: "'f env \<Rightarrow> world \<Rightarrow> string \<Rightarrow> world \<times> error option" where
  "os_Create E w filename =
     (case os_Create_err E w filename of
        Some e \<Rightarrow> (w, Some e)
      | None \<Rightarrow> (w @ [Create filename], None))"

definition file_Write :: "'f env \<Rightarrow> string \<Rightarrow> writer" where
  "file_Write E filename w s =
     (case file_Write_err E w filename s of
        Some e \<Rightarrow> (w, Some e)
      | None \<Rightarrow> (w @ [Write filename s], None))"

subsection \<open>Library functions on strings\<close>

text \<open>
  \<open>strings.ReplaceAll(s, old, new)\<close> for a non-empty \<open>old\<close>: the non-overlapping
  occurrences of \<open>old\<close>, found from the left, are replaced. rest.go passes the literals
  \<open>" "\<close> and \<open>"[flags]"\<close> only; for an empty \<open>old\<close> (where Go inserts \<open>new\<close> around every
  rune) the model returns \<open>s\<close>.
\<close>

function ReplaceAll :: "string \<Rightarrow> string \<Rightarrow> string \<Rightarrow> string" where
  "ReplaceAll [] old new = []"
| "ReplaceAll (c # cs) old new =
     (if old \<noteq> [] \<and> prefix old (c # cs)
      then new @ ReplaceAll (drop (length old) (c # cs)) old new
      else c # ReplaceAll cs old new)"
  by pat_completeness auto
termination
  by (relation "measure (\<lambda>(s, old, new). length s)") auto

text \<open>\<open>strings.Repeat\<close> of a one-byte string.\<close>

definition Repeat :: "char \<Rightarrow> nat \<Rightarrow> string" where
  "Repeat c n = replicate n c"

text \<open>
  \<open>time.Format\<close> with the layout \<open>"2-Jan-2006"\<close>: the day of the month without padding,
  the first three letters of the English month name, the year padded with zeros to
  four digits.
\<close>

fun decimal :: "nat \<Rightarrow> string" where
  "decimal n =
     (if n < 10 then [''0123456789'' ! n]
      else decimal (n div 10) @ [''0123456789'' ! (n mod 10)])"

declare decimal.simps [simp del]

fun month_abbrev :: "month \<Rightarrow> string" where
  "month_abbrev January = ''Jan''"
| "month_abbrev February = ''Feb''"
| "month_abbrev March = ''Mar''"
| "month_abbrev April = ''Apr''"
| "month_abbrev May = ''May''"
| "month_abbrev June = ''Jun''"
| "month_abbrev July = ''Jul''"
| "month_abbrev August = ''Aug''"
| "month_abbrev September = ''Sep''"
| "month_abbrev October = ''Oct''"
| "month_abbrev November = ''Nov''"
| "month_abbrev December = ''Dec''"

definition Format_2_Jan_2006 :: "date \<Rightarrow> string" where
  "Format_2_Jan_2006 t =
     decimal (Day t) @ ''-'' @ month_abbrev (Month t) @ ''-''
       @ replicate (4 - length (decimal (Year t))) (CHR ''0'') @ decimal (Year t)"

subsection \<open>indentString\<close>

text \<open>
  The loop of \<open>indentString\<close> over the bytes of \<open>s\<close>: \<open>bol\<close> says that the next byte
  starts a line, \<open>res\<close> is the output so far.
\<close>

fun indentString_loop :: "string \<Rightarrow> string \<Rightarrow> bool \<Rightarrow> string \<Rightarrow> string" where
  "indentString_loop [] p bol res = res"
| "indentString_loop (c # b) p bol res =
     (let res1 = (if bol \<and> c \<noteq> CHR ''\<newline>'' then res @ p else res);
          res2 = res1 @ [c]
      in indentString_loop b p (c = CHR ''\<newline>'') res2)"

definition indentString :: "string \<Rightarrow> string \<Rightarrow> string" where
  "indentString s p = indentString_loop s p True []"

subsection \<open>The page renderer\<close>

type_synonym linkHandler = "string \<Rightarrow> string \<Rightarrow> string"

definition defaultLinkHandler :: linkHandler where
  "defaultLinkHandler name ref = ''`'' @ name @ '' <'' @ ref @ ''.txt>`_''"

definition skipped :: "'f command \<Rightarrow> bool" where
  "skipped c = (\<not> IsAvailableCommand (info c) \<or> IsAdditionalHelpTopicCommand (info c))"

fun hasSeeAlso_loop :: "'f command list \<Rightarrow> bool" where
  "hasSeeAlso_loop [] = False"
| "hasSeeAlso_loop (c # cs) = (if skipped c then hasSeeAlso_loop cs else True)"

definition hasSeeAlso :: "'f info list \<Rightarrow> 'f command \<Rightarrow> bool" where
  "hasSeeAlso ps cmd = (if HasParent ps then True else hasSeeAlso_loop (Commands cmd))"

definition table_header :: string where
  "table_header =
     ''   :header-rows: 1\<newline>   :widths: 20 10 60 10\<newline>\<newline>   * - Option\<newline>     - Type\<newline>     - Description\<newline>     - Required\<newline>''"

definition printOptionsReST :: "'f env \<Rightarrow> string \<Rightarrow> 'f command \<Rightarrow> string \<times> error option" where
  "printOptionsReST E buf cmd =
     (let flags = NonInheritedFlags (info cmd);
          buf1 = (if HasAvailableFlags E flags
                  then buf @ ''Options\<newline>''
                         @ ''~~~~~~~\<newline>\<newline>.. list-table::\<newline>''
                         @ table_header
                         @ indentString (FlagUsages E flags) '' ''
                         @ ''\<newline>''
                  else buf);
          parentFlags = InheritedFlags (info cmd);
          buf2 = (if HasAvailableFlags E parentFlags
                  then buf1 @ ''Inherited Options\<newline>''
                         @ ''~~~~~~~~~~~~~~~~~~~~~~~~~~~~~~~~~~~~~~\<newline>\<newline>.. list-table::\<newline>''
                         @ table_header
                         @ indentString (FlagUsages E parentFlags) '' ''
                         @ ''\<newline>''
                  else buf1)
      in (buf2, None))"

text \<open>
  \<open>byName\<close> orders a slice of commands by \<open>Name()\<close>. \<open>sort.Sort(byName(children))\<close>
  sorts the slice that \<open>cmd.Commands()\<close> returned, the command's own slice of children,
  so the command's children are reordered.
\<close>

definition byName_Less :: "'f command \<Rightarrow> 'f command \<Rightarrow> bool" where
  "byName_Less a b = (Name (info a) < Name (info b))"

definition link_line :: "linkHandler \<Rightarrow> string \<Rightarrow> string \<Rightarrow> string" where
  "link_line linkHandler name short =
     ''* '' @ linkHandler name (ReplaceAll name '' '' ''_'') @ '' '' @ [CHR 0x09] @ '' - ''
       @ short @ ''\<newline>''"

fun seeAlso_children :: "linkHandler \<Rightarrow> string \<Rightarrow> 'f command list \<Rightarrow> string \<Rightarrow> string" where
  "seeAlso_children linkHandler name [] buf = buf"
| "seeAlso_children linkHandler name (child # children) buf =
     (if skipped child then seeAlso_children linkHandler name children buf
      else seeAlso_children linkHandler name children
             (buf @ link_line linkHandler (name @ '' '' @ Name (info child)) (Short (info child))))"

definition propagate_tag :: "'f info \<Rightarrow> 'f command \<Rightarrow> 'f command" where
  "propagate_tag c cmd =
     (if DisableAutoGenTag c then set_DisableAutoGenTag (DisableAutoGenTag c) cmd else cmd)"

definition footer :: "date \<Rightarrow> string" where
  "footer now = ''*Auto generated by MongoDB CLI on '' @ Format_2_Jan_2006 now @ ''*\<newline>''"

text \<open>
  The body of \<open>GenCustom\<close> up to the write: the buffer and the command as the function
  leaves it.
\<close>

definition render :: "'f env \<Rightarrow> date \<Rightarrow> 'f info list \<Rightarrow> 'f command \<Rightarrow> linkHandler
    \<Rightarrow> string \<times> 'f command \<times> error option" where
  "render E now ps cmd0 linkHandler =
     (let cmd1 = InitDefaultHelpCmd E ps cmd0;
          cmd2 = InitDefaultHelpFlag E ps cmd1;
          name = CommandPath ps cmd2;
          short = Short (info cmd2);
          long = (if Long (info cmd2) = [] then short else Long (info cmd2));
          ref = ReplaceAll name '' '' ''_'';
          buf1 = ''.. _'' @ ref @ '':\<newline>\<newline>''
                   @ Repeat (CHR ''='') (length name) @ ''\<newline>''
                   @ name @ ''\<newline>''
                   @ Repeat (CHR ''='') (length name) @ ''\<newline>\<newline>''
                   @ short @ ''\<newline>''
                   @ ''\<newline>'' @ long @ ''\<newline>\<newline>'';
          buf2 = (if Runnable (info cmd2)
                  then buf1 @ ''.. code-block::\<newline>\<newline>   ''
                         @ ReplaceAll (UseLine (info cmd2)) ''[flags]'' ''[options]''
                         @ ''\<newline>\<newline>''
                  else buf1)
      in case printOptionsReST E buf2 cmd2 of
           (buf3, Some err) \<Rightarrow> (buf3, cmd2, Some err)
         | (buf3, None) \<Rightarrow>
            (let buf4 = (if length (Example (info cmd2)) > 0
                         then buf3 @ ''Examples\<newline>'' @ ''~~~~~~~~\<newline>\<newline>''
                                @ ''.. code-block::\<newline>''
                                @ indentString (Example (info cmd2)) '' '' @ ''\<newline>\<newline>''
                         else buf3);
                 (buf7, cmd5) =
                   (if hasSeeAlso ps cmd2
                    then
                      (let buf5 = buf4 @ ''See Also\<newline>'' @ ''~~~~~~~~\<newline>\<newline>'';
                           (buf6, cmd3) =
                             (if HasParent ps
                              then (buf5 @ link_line linkHandler (path_of ps) (Short (hd ps)),
                                    VisitParents ps propagate_tag cmd2)
                              else (buf5, cmd2));
                           children = sort_Sort E byName_Less (Commands cmd3);
                           cmd4 = Command (info cmd3) children
                       in (seeAlso_children linkHandler name children buf6 @ ''\<newline>'', cmd4))
                    else (buf4, cmd2));
                 buf8 = (if \<not> DisableAutoGenTag (info cmd5) then buf7 @ footer now else buf7)
             in (buf8, cmd5, None)))"

text \<open>
  \<open>GenCustom(cmd, w, linkHandler)\<close>: renders, then writes the buffer to \<open>w\<close> in one
  write and returns that write's error.
\<close>

definition GenCustom :: "'f env \<Rightarrow> 'f info list \<Rightarrow> 'f command \<Rightarrow> writer \<Rightarrow> linkHandler
    \<Rightarrow> world \<Rightarrow> world \<times> 'f command \<times> error option" where
  "GenCustom E ps cmd wr linkHandler w =
     (case render E (time_Now E w) ps cmd linkHandler of
        (buf, cmd', Some err) \<Rightarrow> (w, cmd', Some err)
      | (buf, cmd', None) \<Rightarrow>
          (case wr w buf of (w', err) \<Rightarrow> (w', cmd', err)))"

subsection \<open>The tree walker\<close>

definition filename_of :: "'f env \<Rightarrow> string \<Rightarrow> 'f info list \<Rightarrow> 'f command \<Rightarrow> string" where
  "filename_of E dir ps cmd =
     (let basename = ReplaceAll (CommandPath ps cmd) '' '' ''-'' @ ''.txt''
      in filepath_Join E dir basename)"

text \<open>
  \<open>GenTreeCustom\<close> with its loop over the children. Both return the file system, the
  command (or the children) as the calls so far have left them, and the error. The
  deferred \<open>f.Close()\<close> runs on every return after the file was created.
\<close>

fun GenTreeCustom :: "'f env \<Rightarrow> string \<Rightarrow> (string \<Rightarrow> string) \<Rightarrow> linkHandler
    \<Rightarrow> 'f info list \<Rightarrow> 'f command \<Rightarrow> world \<Rightarrow> world \<times> 'f command \<times> error option"
  and GenTreeCustom_children :: "'f env \<Rightarrow> string \<Rightarrow> (string \<Rightarrow> string) \<Rightarrow> linkHandler
    \<Rightarrow> 'f info list \<Rightarrow> 'f command list \<Rightarrow> world \<Rightarrow> world \<times> 'f command list \<times> error option"
where
  "GenTreeCustom E dir filePrepender linkHandler ps (Command i cs) w =
     (case GenTreeCustom_children E dir filePrepender linkHandler (i # ps) cs w of
        (w1, cs1, Some err) \<Rightarrow> (w1, Command i cs1, Some err)
      | (w1, cs1, None) \<Rightarrow>
          (let cmd = Command i cs1;
               filename = filename_of E dir ps cmd
           in case os_Create E w1 filename of
                (w2, Some err) \<Rightarrow> (w2, cmd, Some err)
              | (w2, None) \<Rightarrow>
                  (case file_Write E filename w2 (filePrepender filename) of
                     (w3, Some err) \<Rightarrow> (w3 @ [Close filename], cmd, Some err)
                   | (w3, None) \<Rightarrow>
                       (case GenCustom E ps cmd (file_Write E filename) linkHandler w3 of
                          (w4, cmd', r) \<Rightarrow> (w4 @ [Close filename], cmd', r)))))"
| "GenTreeCustom_children E dir filePrepender linkHandler ps [] w = (w, [], None)"
| "GenTreeCustom_children E dir filePrepender linkHandler ps (c # cs) w =
     (if skipped c
      then (case GenTreeCustom_children E dir filePrepender linkHandler ps cs w of
              (w', cs', r) \<Rightarrow> (w', c # cs', r))
      else (case GenTreeCustom E dir filePrepender linkHandler ps c w of
              (w1, c1, Some err) \<Rightarrow> (w1, c1 # cs, Some err)
            | (w1, c1, None) \<Rightarrow>
                (case GenTreeCustom_children E dir filePrepender linkHandler ps cs w1 of
                   (w2, cs2, r) \<Rightarrow> (w2, c1 # cs2, r))))"

definition emptyStr :: "string \<Rightarrow> string" where
  "emptyStr s = []"

definition GenTree :: "'f env \<Rightarrow> 'f info list \<Rightarrow> 'f command \<Rightarrow> string \<Rightarrow> world
    \<Rightarrow> world \<times> 'f command \<times> error option" where
  "GenTree E ps cmd dir w = GenTreeCustom E dir emptyStr defaultLinkHandler ps cmd w"

subsection \<open>Notions of the specification\<close>

text \<open>
  Splitting a text at its newlines and joining it again, and the inverse of indenting as
  the specification words it: the prefix is removed from every non-empty line. A
  non-empty line that does not start with the prefix cannot be stripped, and then there
  is no result.
\<close>

fun split_lines :: "string \<Rightarrow> string list" where
  "split_lines [] = [[]]"
| "split_lines (c # cs) =
     (if c = CHR ''\<newline>'' then [] # split_lines cs
      else (c # hd (split_lines cs)) # tl (split_lines cs))"

fun join_lines :: "string list \<Rightarrow> string" where
  "join_lines [] = []"
| "join_lines [l] = l"
| "join_lines (l # l' # ls) = l @ CHR ''\<newline>'' # join_lines (l' # ls)"

definition strip_line :: "string \<Rightarrow> string \<Rightarrow> string option" where
  "strip_line p l =
     (if l = [] then Some []
      else if prefix p l then Some (drop (length p) l)
      else None)"

fun strip_lines :: "string \<Rightarrow> string list \<Rightarrow> string list option" where
  "strip_lines p [] = Some []"
| "strip_lines p (l # ls) =
     (case strip_line p l of
        None \<Rightarrow> None
      | Some l' \<Rightarrow> (case strip_lines p ls of None \<Rightarrow> None | Some ls' \<Rightarrow> Some (l' # ls')))"

definition unindent :: "string \<Rightarrow> string \<Rightarrow> string option" where
  "unindent p s = map_option join_lines (strip_lines p (split_lines s))"

definition indent_line :: "string \<Rightarrow> string \<Rightarrow> string" where
  "indent_line p l = (if l = [] then [] else p @ l)"

text \<open>The command as \<open>GenCustom\<close> sees it after the two framework calls.\<close>

definition after_init :: "'f env \<Rightarrow> 'f info list \<Rightarrow> 'f command \<Rightarrow> 'f command" where
  "after_init E ps cmd = InitDefaultHelpFlag E ps (InitDefaultHelpCmd E ps cmd)"

text \<open>
  The commands for which the walker makes a page, each with its chain of ancestors, in
  the order of the pages: the root of the walk, and below a command the children that
  are not skipped. Nothing below a skipped child is reached.
\<close>

fun visited :: "'f info list \<Rightarrow> 'f command \<Rightarrow> ('f info list \<times> 'f command) list"
  and visited_children :: "'f info list \<Rightarrow> 'f command list \<Rightarrow> ('f info list \<times> 'f command) list"
where
  "visited ps (Command i cs) = visited_children (i # ps) cs @ [(ps, Command i cs)]"
| "visited_children ps [] = []"
| "visited_children ps (c # cs) =
     (if skipped c then [] else visited ps c) @ visited_children ps cs"

definition files :: "'f env \<Rightarrow> string \<Rightarrow> ('f info list \<times> 'f command) list \<Rightarrow> string list" where
  "files E dir vs = map (\<lambda>(ps, c). filename_of E dir ps c) vs"

text \<open>
  Every command of a tree with its chain of ancestors, skipped or not; \<open>ps\<close> is the
  chain of the root.
\<close>

fun subtree :: "'f info list \<Rightarrow> 'f command \<Rightarrow> ('f info list \<times> 'f command) list"
  and subtree_children :: "'f info list \<Rightarrow> 'f command list \<Rightarrow> ('f info list \<times> 'f command) list"
where
  "subtree ps (Command i cs) = (ps, Command i cs) # subtree_children (i # ps) cs"
| "subtree_children ps [] = []"
| "subtree_children ps (c # cs) = subtree ps c @ subtree_children ps cs"

text \<open>The files created in a trace, and a trace without the written contents.\<close>

fun created :: "world \<Rightarrow> string list" where
  "created [] = []"
| "created (Create f # w) = f # created w"
| "created (Write f s # w) = created w"
| "created (Close f # w) = created w"

fun shape :: "event \<Rightarrow> event" where
  "shape (Create f) = Create f"
| "shape (Write f s) = Write f []"
| "shape (Close f) = Close f"

text \<open>
  The events of a complete page: the file is created, the prepended text and the page are
  written, the file is closed.
\<close>

definition page_events :: "string \<Rightarrow> event list" where
  "page_events f = [Create f, Write f [], Write f [], Close f]"

definition completed :: "string list \<Rightarrow> world \<Rightarrow> bool" where
  "completed fs new = (map shape new = concat (map page_events fs))"

text \<open>
  A page that failed in the file system \<open>w\<close> with the error \<open>e\<close>: \<open>part\<close> is what the
  attempt left. Either the file could not be created, or one of the two writes failed
  and the file was closed.
\<close>

definition failed_page :: "'f env \<Rightarrow> world \<Rightarrow> string \<Rightarrow> event list \<Rightarrow> error \<Rightarrow> bool" where
  "failed_page E w f part e =
     ((part = [] \<and> os_Create_err E w f = Some e)
      \<or> (part = [Create f, Close f] \<and> (\<exists>s. file_Write_err E (w @ [Create f]) f s = Some e))
      \<or> (\<exists>s1 s. part = [Create f, Write f s1, Close f]
            \<and> file_Write_err E (w @ [Create f, Write f s1]) f s = Some e))"

text \<open>
  A run over the pages \<open>fs\<close> that stopped at the first error: the pages before the
  \<open>k\<close>-th are complete, the \<open>k\<close>-th failed with \<open>e\<close>, and nothing follows.
\<close>

definition aborted :: "'f env \<Rightarrow> world \<Rightarrow> string list \<Rightarrow> world \<Rightarrow> error \<Rightarrow> bool" where
  "aborted E w fs new e =
     (\<exists>k front part. k < length fs \<and> new = front @ part
        \<and> completed (take k fs) front \<and> failed_page E (w @ front) (fs ! k) part e)"

text \<open>
  The page as the specification lays it out: the title, descriptions and usage block;
  the option tables; the examples; the "See Also" block, which lists the children that
  are not skipped, in the order \<open>sort.Sort\<close> gave them; the footer. \<open>rendered\<close> is the command as
  rendering leaves it.
\<close>

definition listed :: "'f env \<Rightarrow> 'f command \<Rightarrow> 'f command list" where
  "listed E c = filter (\<lambda>x. \<not> skipped x) (sort_Sort E byName_Less (Commands c))"

definition page_top :: "'f info list \<Rightarrow> 'f command \<Rightarrow> string" where
  "page_top ps c =
     ''.. _'' @ ReplaceAll (CommandPath ps c) '' '' ''_'' @ '':\<newline>\<newline>''
       @ replicate (length (CommandPath ps c)) (CHR ''='') @ ''\<newline>''
       @ CommandPath ps c @ ''\<newline>''
       @ replicate (length (CommandPath ps c)) (CHR ''='') @ ''\<newline>\<newline>''
       @ Short (info c) @ ''\<newline>\<newline>''
       @ (if Long (info c) = [] then Short (info c) else Long (info c)) @ ''\<newline>\<newline>''
       @ (if Runnable (info c)
          then ''.. code-block::\<newline>\<newline>   ''
                 @ ReplaceAll (UseLine (info c)) ''[flags]'' ''[options]'' @ ''\<newline>\<newline>''
          else [])"

definition examples_part :: "'f command \<Rightarrow> string" where
  "examples_part c =
     (if Example (info c) \<noteq> []
      then ''Examples\<newline>'' @ replicate (length ''Examples'') (CHR ''~'')
             @ ''\<newline>\<newline>.. code-block::\<newline>''
             @ indentString (Example (info c)) '' '' @ ''\<newline>\<newline>''
      else [])"

definition seeAlso_part :: "'f env \<Rightarrow> linkHandler \<Rightarrow> 'f info list \<Rightarrow> 'f command \<Rightarrow> string"
  where
  "seeAlso_part E lh ps c =
     (if ps \<noteq> [] \<or> filter (\<lambda>x. \<not> skipped x) (Commands c) \<noteq> []
      then ''See Also\<newline>~~~~~~~~\<newline>\<newline>''
             @ (if ps \<noteq> [] then link_line lh (path_of ps) (Short (hd ps)) else [])
             @ concat (map (\<lambda>x. link_line lh (CommandPath ps c @ '' '' @ Name (info x))
                                  (Short (info x))) (listed E c))
             @ ''\<newline>''
      else [])"

definition rendered :: "'f env \<Rightarrow> 'f info list \<Rightarrow> 'f command \<Rightarrow> 'f command" where
  "rendered E ps c =
     (if ps \<noteq> [] \<or> filter (\<lambda>x. \<not> skipped x) (Commands c) \<noteq> []
      then Command ((info c)\<lparr>DisableAutoGenTag :=
                       DisableAutoGenTag (info c) \<or> list_ex DisableAutoGenTag ps\<rparr>)
             (sort_Sort E byName_Less (Commands c))
      else c)"

text \<open>
  A run of the walker over the pages \<open>fs\<close> from the file system \<open>w\<close> to \<open>w'\<close>:
  complete when it returned no error, stopped at the first error otherwise.
\<close>

definition walk_ok :: "'f env \<Rightarrow> world \<Rightarrow> string list \<Rightarrow> world \<Rightarrow> error option \<Rightarrow> bool" where
  "walk_ok E w fs w' r =
     (\<exists>new. w' = w @ new \<and> (case r of None \<Rightarrow> completed fs new | Some e \<Rightarrow> aborted E w fs new e))"




text \<open>
  The number of characters of a text in UTF-8, as \<open>utf8.RuneCountInString\<close> counts them
  in valid UTF-8: every byte starts a character except the continuation bytes
  \<open>0x80\<close> to \<open>0xBF\<close>.
\<close>

definition character_count :: "string \<Rightarrow> nat" where
  "character_count s =
     length (filter (\<lambda>c. \<not> (128 \<le> (of_char c :: nat) \<and> (of_char c :: nat) < 192)) s)"

subsection \<open>Example commands\<close>

text \<open>
  A root command \<open>app\<close> with one runnable child \<open>app sub\<close>, which has a flag
  \<open>--name\<close> and an example. In the example environment a flag set is the list of
  its usage lines, the two framework calls change nothing, sorting is by insertion, paths
  are joined with a slash, and no file operation fails; \<open>ex_env_denied\<close> refuses to create
  \<open>out/app.txt\<close>. \<open>ex_tool\<close> is an unavailable root with an unavailable group that
  holds a runnable command.
\<close>

fun ex_insert :: "('a \<Rightarrow> 'a \<Rightarrow> bool) \<Rightarrow> 'a \<Rightarrow> 'a list \<Rightarrow> 'a list" where
  "ex_insert lt x [] = [x]"
| "ex_insert lt x (y # ys) = (if lt x y then x # y # ys else y # ex_insert lt x ys)"

definition ex_sort :: "('a \<Rightarrow> 'a \<Rightarrow> bool) \<Rightarrow> 'a list \<Rightarrow> 'a list" where
  "ex_sort lt xs = foldr (ex_insert lt) xs []"

definition ex_date :: date where
  "ex_date = \<lparr>Day = 1, Month = November, Year = 2026\<rparr>"

definition ex_env :: "string list env" where
  "ex_env = \<lparr>InitDefaultHelpCmd = (\<lambda>ps c. c), InitDefaultHelpFlag = (\<lambda>ps c. c),
     HasAvailableFlags = (\<lambda>f. f \<noteq> []),
     FlagUsages = (\<lambda>f. concat (map (\<lambda>l. l @ ''\<newline>'') f)),
     sort_Sort = ex_sort,
     filepath_Join = (\<lambda>dir b. dir @ ''/'' @ b),
     time_Now = (\<lambda>w. ex_date),
     os_Create_err = (\<lambda>w f. None),
     file_Write_err = (\<lambda>w f s. None)\<rparr>"

definition ex_env_denied :: "string list env" where
  "ex_env_denied = ex_env\<lparr>os_Create_err :=
     (\<lambda>w f. if f = ''out/app.txt'' then Some (IOError ''permission denied'') else None)\<rparr>"

definition ex_sub_info :: "string list info" where
  "ex_sub_info = \<lparr>Name = ''sub'', Short = ''Sub command'', Long = [],
     Example = ''app sub --name x'', UseLine = ''app sub [flags]'', Runnable = True,
     IsAvailableCommand = True, IsAdditionalHelpTopicCommand = False,
     DisableAutoGenTag = False, NonInheritedFlags = [''--name''], InheritedFlags = []\<rparr>"

definition ex_app_info :: "string list info" where
  "ex_app_info = \<lparr>Name = ''app'', Short = ''Root app'', Long = [],
     Example = [], UseLine = ''app'', Runnable = False,
     IsAvailableCommand = True, IsAdditionalHelpTopicCommand = False,
     DisableAutoGenTag = False, NonInheritedFlags = [], InheritedFlags = []\<rparr>"

definition ex_sub :: "string list command" where
  "ex_sub = Command ex_sub_info []"

definition ex_app :: "string list command" where
  "ex_app = Command ex_app_info [ex_sub]"

definition ex_run :: "string list command" where
  "ex_run = Command (ex_sub_info\<lparr>Name := ''run''\<rparr>) []"

definition ex_grp_info :: "string list info" where
  "ex_grp_info = ex_app_info\<lparr>Name := ''grp'', IsAvailableCommand := False\<rparr>"

definition ex_tool_info :: "string list info" where
  "ex_tool_info = ex_app_info\<lparr>Name := ''tool'', IsAvailableCommand := False\<rparr>"

definition ex_tool :: "string list command" where
  "ex_tool = Command ex_tool_info [Command ex_grp_info [ex_run]]"

text \<open>
  Further examples: a parent with auto-generation tags disabled; a command with the same
  child twice; a command whose children are stored as \<open>zeta\<close>, a hidden command and
  \<open>alpha\<close>; a command with an inherited flag; a command whose name is the letter e
  with an acute accent, in UTF-8 the two bytes \<open>0xC3 0xA9\<close>.
\<close>

definition ex_parent_off :: "string list info" where
  "ex_parent_off = ex_app_info\<lparr>DisableAutoGenTag := True\<rparr>"

definition ex_twins :: "string list command" where
  "ex_twins = Command ex_app_info [ex_sub, ex_sub]"

definition ex_zeta :: "string list command" where
  "ex_zeta = Command (ex_sub_info\<lparr>Name := ''zeta'', Short := ''Last''\<rparr>) []"

definition ex_alpha :: "string list command" where
  "ex_alpha = Command (ex_sub_info\<lparr>Name := ''alpha'', Short := ''First''\<rparr>) []"

definition ex_hidden :: "string list command" where
  "ex_hidden = Command (ex_sub_info\<lparr>Name := ''hidden'', IsAvailableCommand := False\<rparr>) []"

definition ex_unsorted :: "string list command" where
  "ex_unsorted = Command ex_app_info [ex_zeta, ex_hidden, ex_alpha]"

definition ex_inherits :: "string list command" where
  "ex_inherits = Command (ex_sub_info\<lparr>InheritedFlags := [''--profile'']\<rparr>) []"

definition ex_accent :: "string list command" where
  "ex_accent = Command (ex_app_info\<lparr>Name := [CHR 0xC3, CHR 0xA9]\<rparr>) []"


section \<open>Properties\<close>

subsection \<open>indentString and its inverse\<close>

lemma split_lines_not_Nil: "split_lines s \<noteq> []"
  by (induction s) auto

lemma join_split_lines: "join_lines (split_lines s) = s"
proof (induction s)
  case Nil
  show ?case by simp
next
  case (Cons c cs)
  obtain l ls where "split_lines cs = l # ls"
    using split_lines_not_Nil[of cs] by (cases "split_lines cs") auto
  with Cons show ?case by (cases ls) auto
qed

lemma indentString_loop_acc:
  "indentString_loop s p bol res = res @ indentString_loop s p bol []"
proof (induction s arbitrary: bol res)
  case Nil
  show ?case by simp
next
  case (Cons c cs)
  have a: "\<And>b r. indentString_loop cs p b r = r @ indentString_loop cs p b []"
    by (rule Cons)
  show ?case
    by (simp add: Let_def a[of _ "res @ p @ [c]"] a[of _ "res @ [c]"] a[of _ "p @ [c]"]
        a[of _ "[c]"])
qed

lemma indentString_loop_Cons:
  "indentString_loop (c # cs) p bol [] =
     (if bol \<and> c \<noteq> CHR ''\<newline>'' then p else [])
       @ c # indentString_loop cs p (c = CHR ''\<newline>'') []"
proof (cases "c = CHR ''\<newline>''")
  case True
  then show ?thesis using indentString_loop_acc[of cs p True "[c]"] by simp
next
  case False
  show ?thesis
  proof (cases bol)
    case True
    with False show ?thesis using indentString_loop_acc[of cs p False "p @ [c]"] by simp
  next
    case nb: False
    with False show ?thesis using indentString_loop_acc[of cs p False "[c]"] by simp
  qed
qed

lemma split_lines_append:
  "CHR ''\<newline>'' \<notin> set p
     \<Longrightarrow> split_lines (p @ s) = (p @ hd (split_lines s)) # tl (split_lines s)"
  using split_lines_not_Nil[of s] by (induction p) auto

text \<open>
  Line by line, the loop indents every non-empty line; when it starts in the middle of
  a line, that line gets no prefix.
\<close>

lemma split_lines_indentString_loop:
  assumes "CHR ''\<newline>'' \<notin> set p"
  shows "split_lines (indentString_loop s p bol []) =
     (if bol then map (indent_line p) (split_lines s)
      else hd (split_lines s) # map (indent_line p) (tl (split_lines s)))"
proof (induction s arbitrary: bol)
  case Nil
  show ?case by (simp add: indent_line_def)
next
  case (Cons c cs)
  show ?case
  proof (cases "c = CHR ''\<newline>''")
    case True
    then show ?thesis using Cons[of True]
      by (simp add: indent_line_def indentString_loop_Cons del: indentString_loop.simps)
  next
    case False
    then show ?thesis using Cons[of False] assms
        split_lines_append[of p "c # indentString_loop cs p False []"]
      by (simp add: indent_line_def indentString_loop_Cons del: indentString_loop.simps)
  qed
qed

lemma strip_indent_line: "strip_line p (indent_line p l) = Some l"
  by (auto simp: strip_line_def indent_line_def)

lemma strip_indent_lines: "strip_lines p (map (indent_line p) ls) = Some ls"
  by (induction ls) (simp_all add: strip_indent_line)

text \<open>
  C8. Indenting a text with \<open>indentString\<close> and the one-space prefix, then removing
  the one-space prefix from every non-empty line of the result, gives the text back:
  every non-empty line of the indented text starts with the prefix, so the stripping
  has a result, and the result is the original text.
\<close>

theorem indentString_roundtrip: "unindent '' '' (indentString s '' '') = Some s"
proof -
  have "split_lines (indentString s '' '') = map (indent_line '' '') (split_lines s)"
    unfolding indentString_def using split_lines_indentString_loop[of "'' ''" s True] by simp
  then show ?thesis
    by (simp add: unindent_def strip_indent_lines join_split_lines)
qed

theorem indentString_roundtrip_witness:
  "indentString ''ab\<newline>\<newline> c\<newline>'' '' '' = '' ab\<newline>\<newline>  c\<newline>''
   \<and> unindent '' '' '' ab\<newline>\<newline>  c\<newline>'' = Some ''ab\<newline>\<newline> c\<newline>''
   \<and> unindent '' '' ''ab'' = None"
proof -
  have 1: "indentString ''ab\<newline>\<newline> c\<newline>'' '' '' = '' ab\<newline>\<newline>  c\<newline>''"
    by (simp add: indentString_def)
  from indentString_roundtrip[of "''ab\<newline>\<newline> c\<newline>''"]
  have 2: "unindent '' '' '' ab\<newline>\<newline>  c\<newline>'' = Some ''ab\<newline>\<newline> c\<newline>''"
    unfolding 1 .
  have 3: "unindent '' '' ''ab'' = None"
    by (simp add: unindent_def strip_line_def)
  from 1 2 3 show ?thesis by (intro conjI)
qed

subsection \<open>The renderer, part by part\<close>

lemma seeAlso_children_eq:
  "seeAlso_children lh name cs buf =
     buf @ concat (map (\<lambda>x. link_line lh (name @ '' '' @ Name (info x)) (Short (info x)))
                     (filter (\<lambda>x. \<not> skipped x) cs))"
  by (induction cs arbitrary: buf) auto

lemma hasSeeAlso_loop_eq: "hasSeeAlso_loop cs = (filter (\<lambda>x. \<not> skipped x) cs \<noteq> [])"
  by (induction cs) auto

lemma hasSeeAlso_eq:
  "hasSeeAlso ps c = (ps \<noteq> [] \<or> filter (\<lambda>x. \<not> skipped x) (Commands c) \<noteq> [])"
  by (simp add: hasSeeAlso_def HasParent_def hasSeeAlso_loop_eq)

lemma set_tag_twice: "set_DisableAutoGenTag True (set_DisableAutoGenTag v c) = set_DisableAutoGenTag True c"
  by (simp add: set_DisableAutoGenTag_def)

lemma VisitParents_propagate_set:
  "VisitParents ps propagate_tag (set_DisableAutoGenTag True c) = set_DisableAutoGenTag True c"
  by (induction ps) (auto simp: propagate_tag_def set_tag_twice)

lemma VisitParents_propagate:
  "VisitParents ps propagate_tag c =
     (if list_ex DisableAutoGenTag ps then set_DisableAutoGenTag True c else c)"
  by (induction ps arbitrary: c) (auto simp: propagate_tag_def VisitParents_propagate_set set_tag_twice)

lemma printOptionsReST_append:
  "fst (printOptionsReST E buf c) = buf @ fst (printOptionsReST E [] c)"
  by (simp add: printOptionsReST_def Let_def)

lemma printOptionsReST_eq:
  "printOptionsReST E buf c = (buf @ fst (printOptionsReST E [] c), None)"
  by (simp add: printOptionsReST_def Let_def)

lemma render_eq:
  "render E now ps cmd lh =
     (let c = after_init E ps cmd
      in (page_top ps c @ fst (printOptionsReST E [] c) @ examples_part c @ seeAlso_part E lh ps c
             @ (if DisableAutoGenTag (info (rendered E ps c)) then [] else footer now),
          rendered E ps c, None))"
proof -
  define c where "c = after_init E ps cmd"
  show ?thesis
    unfolding render_def Let_def after_init_def[symmetric] c_def[symmetric]
    by (cases c)
      (simp add: printOptionsReST_eq[of E "_ @ _"] printOptionsReST_eq[of E "_ # _"] hasSeeAlso_eq HasParent_def seeAlso_children_eq
        VisitParents_propagate page_top_def examples_part_def seeAlso_part_def rendered_def
        listed_def Repeat_def set_DisableAutoGenTag_def CommandPath_def)
qed

subsection \<open>The trace of the walker\<close>

lemma render_no_error: "snd (snd (render E now ps cmd lh)) = None"
  by (simp add: render_def printOptionsReST_def Let_def split: prod.splits)

lemma GenCustom_file:
  "GenCustom E ps cmd (file_Write E f) lh w =
     (case file_Write_err E w f (fst (render E (time_Now E w) ps cmd lh)) of
        Some e \<Rightarrow> (w, fst (snd (render E (time_Now E w) ps cmd lh)), Some e)
      | None \<Rightarrow> (w @ [Write f (fst (render E (time_Now E w) ps cmd lh))],
                 fst (snd (render E (time_Now E w) ps cmd lh)), None))"
proof -
  obtain buf c r where e: "render E (time_Now E w) ps cmd lh = (buf, c, r)"
    by (cases "render E (time_Now E w) ps cmd lh") auto
  with render_no_error[of E "time_Now E w" ps cmd lh] have "r = None" by simp
  with e show ?thesis
    by (simp add: GenCustom_def file_Write_def split: option.splits)
qed

lemma completed_append:
  "completed fs a \<Longrightarrow> completed gs b \<Longrightarrow> completed (fs @ gs) (a @ b)"
  by (simp add: completed_def)

lemma aborted_appendL:
  assumes "aborted E w fs new e"
  shows "aborted E w (fs @ gs) new e"
proof -
  from assms obtain k front part where k: "k < length fs" "new = front @ part"
    "completed (take k fs) front" "failed_page E (w @ front) (fs ! k) part e"
    unfolding aborted_def by blast
  then have "k < length (fs @ gs)" "completed (take k (fs @ gs)) front"
    "failed_page E (w @ front) ((fs @ gs) ! k) part e"
    by (simp_all add: nth_append)
  with k(2) show ?thesis unfolding aborted_def by blast
qed

lemma aborted_appendR:
  assumes "completed fs new1" and "aborted E (w @ new1) gs new2 e"
  shows "aborted E w (fs @ gs) (new1 @ new2) e"
proof -
  from assms(2) obtain k front part where k: "k < length gs" "new2 = front @ part"
    "completed (take k gs) front" "failed_page E ((w @ new1) @ front) (gs ! k) part e"
    unfolding aborted_def by blast
  have 1: "length fs + k < length (fs @ gs)" using k(1) by simp
  have 2: "new1 @ new2 = (new1 @ front) @ part" using k(2) by simp
  have 3: "completed (take (length fs + k) (fs @ gs)) (new1 @ front)"
    using completed_append[OF assms(1) k(3)] by simp
  have 4: "failed_page E (w @ (new1 @ front)) ((fs @ gs) ! (length fs + k)) part e"
    using k(4) by (simp add: nth_append)
  from 1 2 3 4 show ?thesis unfolding aborted_def by blast
qed

lemma walk_ok_refl: "walk_ok E w [] w None"
  by (simp add: walk_ok_def completed_def)

lemma walk_ok_err_appendL: "walk_ok E w fs w' (Some e) \<Longrightarrow> walk_ok E w (fs @ gs) w' (Some e)"
  by (auto simp: walk_ok_def intro: aborted_appendL)

lemma walk_ok_trans:
  assumes "walk_ok E w fs w1 None" and "walk_ok E w1 gs w2 r"
  shows "walk_ok E w (fs @ gs) w2 r"
proof -
  from assms(1) obtain n1 where n1: "w1 = w @ n1" "completed fs n1" by (auto simp: walk_ok_def)
  from assms(2) obtain n2 where n2: "w2 = w1 @ n2"
    "case r of None \<Rightarrow> completed gs n2 | Some e \<Rightarrow> aborted E w1 gs n2 e" by (auto simp: walk_ok_def)
  show ?thesis
  proof (cases r)
    case None
    with n1 n2 show ?thesis by (auto simp: walk_ok_def intro: completed_append)
  next
    case (Some e)
    with n1 n2 have "aborted E w (fs @ gs) (n1 @ n2) e" by (auto intro: aborted_appendR)
    with n1 n2 Some show ?thesis by (auto simp: walk_ok_def)
  qed
qed

lemma own_page:
  assumes "(case os_Create E w1 f of
                (w2, Some err) \<Rightarrow> (w2, cmd, Some err)
              | (w2, None) \<Rightarrow>
                  (case file_Write E f w2 (fp f) of
                     (w3, Some err) \<Rightarrow> (w3 @ [Close f], cmd, Some err)
                   | (w3, None) \<Rightarrow>
                       (case GenCustom E ps cmd (file_Write E f) lh w3 of
                          (w4, x) \<Rightarrow> (w4 @ [Close f], x)))) = (w', c', r)"
  shows "walk_ok E w1 [f] w' r"
proof (cases "os_Create_err E w1 f")
  case (Some e)
  with assms have "w' = w1" "r = Some e" by (auto simp: os_Create_def)
  moreover have "aborted E w1 [f] [] e"
    unfolding aborted_def using Some
    by (intro exI[of _ 0] exI[of _ "[]"]) (simp add: completed_def failed_page_def)
  ultimately show ?thesis by (simp add: walk_ok_def)
next
  case None
  note c = None
  show ?thesis
  proof (cases "file_Write_err E (w1 @ [Create f]) f (fp f)")
    case (Some e)
    with c assms have "w' = w1 @ [Create f, Close f]" "r = Some e"
      by (auto simp: os_Create_def file_Write_def)
    moreover have "aborted E w1 [f] [Create f, Close f] e"
      unfolding aborted_def using Some
      by (intro exI[of _ 0] exI[of _ "[]"] exI[of _ "[Create f, Close f]"])
         (auto simp add: completed_def failed_page_def)
    ultimately show ?thesis by (simp add: walk_ok_def)
  next
    case None
    note p = None
    let ?w3 = "w1 @ [Create f, Write f (fp f)]"
    let ?buf = "fst (render E (time_Now E ?w3) ps cmd lh)"
    show ?thesis
    proof (cases "file_Write_err E ?w3 f ?buf")
      case (Some e)
      with c p assms have "w' = w1 @ [Create f, Write f (fp f), Close f]" "r = Some e"
        by (auto simp: os_Create_def file_Write_def GenCustom_file)
      moreover have "aborted E w1 [f] [Create f, Write f (fp f), Close f] e"
        unfolding aborted_def using Some
        by (intro exI[of _ 0] exI[of _ "[]"] exI[of _ "[Create f, Write f (fp f), Close f]"])
           (auto simp add: completed_def failed_page_def)
      ultimately show ?thesis by (simp add: walk_ok_def)
    next
      case None
      with c p assms have "w' = w1 @ [Create f, Write f (fp f), Write f ?buf, Close f]" "r = None"
        by (auto simp: os_Create_def file_Write_def GenCustom_file)
      then show ?thesis by (simp add: walk_ok_def completed_def page_events_def)
    qed
  qed
qed

lemma children_walk:
  assumes "\<And>c w w' c' r. c \<in> set cs \<Longrightarrow> GenTreeCustom E dir fp lh ps c w = (w', c', r)
             \<Longrightarrow> walk_ok E w (files E dir (visited ps c)) w' r"
    and "GenTreeCustom_children E dir fp lh ps cs w = (w', cs', r)"
  shows "walk_ok E w (files E dir (visited_children ps cs)) w' r"
  using assms
proof (induction cs arbitrary: w w' cs' r)
  case Nil
  then show ?case by (simp add: files_def walk_ok_refl)
next
  case (Cons c cs)
  show ?case
  proof (cases "skipped c")
    case True
    with Cons.prems(2) obtain cs1 where "GenTreeCustom_children E dir fp lh ps cs w = (w', cs1, r)"
      by (auto split: prod.splits)
    from Cons.IH[OF _ this] Cons.prems(1) True show ?thesis by (simp add: files_def)
  next
    case False
    obtain w1 c1 r1 where g: "GenTreeCustom E dir fp lh ps c w = (w1, c1, r1)"
      by (cases "GenTreeCustom E dir fp lh ps c w") auto
    from Cons.prems(1)[OF _ g] have ok1: "walk_ok E w (files E dir (visited ps c)) w1 r1" by simp
    show ?thesis
    proof (cases r1)
      case (Some e)
      with g False Cons.prems(2) have "w' = w1" "r = Some e" by auto
      with ok1 Some False show ?thesis by (simp add: files_def walk_ok_err_appendL)
    next
      case None
      with g False Cons.prems(2) obtain cs2 where
        "GenTreeCustom_children E dir fp lh ps cs w1 = (w', cs2, r)"
        by (auto split: prod.splits)
      from Cons.IH[OF _ this] Cons.prems(1)
      have "walk_ok E w1 (files E dir (visited_children ps cs)) w' r" by simp
      with ok1 None False show ?thesis by (simp add: files_def walk_ok_trans)
    qed
  qed
qed

lemma filename_of_children: "filename_of E dir ps (Command i cs1) = filename_of E dir ps (Command i cs)"
  by (simp add: filename_of_def CommandPath_def)

lemma walk:
  "GenTreeCustom E dir fp lh ps cmd w = (w', cmd', r)
     \<Longrightarrow> walk_ok E w (files E dir (visited ps cmd)) w' r"
proof (induction cmd arbitrary: ps w w' cmd' r)
  case (Command i cs)
  obtain w1 cs1 r1 where ch: "GenTreeCustom_children E dir fp lh (i # ps) cs w = (w1, cs1, r1)"
    by (cases "GenTreeCustom_children E dir fp lh (i # ps) cs w") auto
  have ok1: "walk_ok E w (files E dir (visited_children (i # ps) cs)) w1 r1"
    by (rule children_walk[OF _ ch]) (rule Command.IH)
  show ?case
  proof (cases r1)
    case (Some e)
    with ch Command.prems have "w' = w1" "r = Some e" by auto
    with ok1 Some show ?thesis by (simp add: files_def walk_ok_err_appendL)
  next
    case None
    let ?f = "filename_of E dir ps (Command i cs1)"
    from None ch Command.prems have "walk_ok E w1 [?f] w' r"
      by (intro own_page[where cmd = "Command i cs1" and fp = fp and ps = ps and lh = lh and c' = cmd'])
         (simp add: Let_def)
    with ok1 None have "walk_ok E w (files E dir (visited_children (i # ps) cs) @ [?f]) w' r"
      by (simp add: walk_ok_trans)
    then show ?thesis by (simp add: files_def filename_of_children[of E dir ps i cs1 cs])
  qed
qed

lemma ReplaceAll_char: "ReplaceAll s [a] [b] = map (\<lambda>x. if x = a then b else x) s"
  by (induction s) auto

lemma created_append: "created (a @ b) = created a @ created b"
  by (induction a rule: created.induct) auto

lemma created_shape: "created (map shape w) = created w"
  by (induction w rule: created.induct) auto

lemma created_pages: "created (concat (map page_events fs)) = fs"
  by (induction fs) (auto simp: page_events_def)

lemma completed_created: "completed fs new \<Longrightarrow> created new = fs"
  using created_shape[of new] by (simp add: completed_def created_pages)

lemma failed_page_created: "failed_page E w f part e \<Longrightarrow> created part = [] \<or> created part = [f]"
  by (auto simp: failed_page_def)

lemma aborted_created:
  assumes "aborted E w fs new e"
  shows "prefix (created new) fs"
proof -
  from assms obtain k front part where k: "k < length fs" "new = front @ part"
    "completed (take k fs) front" "failed_page E (w @ front) (fs ! k) part e"
    unfolding aborted_def by blast
  from k(3) have f: "created front = take k fs" by (rule completed_created)
  from failed_page_created[OF k(4)] show ?thesis
  proof
    assume "created part = []"
    with f k(2) show ?thesis by (simp add: created_append take_is_prefix)
  next
    assume "created part = [fs ! k]"
    with f k(1,2) have "created new = take (Suc k) fs"
      by (simp add: created_append take_Suc_conv_app_nth)
    then show ?thesis by (simp add: take_is_prefix)
  qed
qed

lemma filename_of_eq:
  "filename_of E dir ps c =
     filepath_Join E dir (map (\<lambda>x. if x = CHR '' '' then CHR ''-'' else x) (CommandPath ps c) @ ''.txt'')"
  by (simp add: filename_of_def ReplaceAll_char)

subsection \<open>Which commands get a page\<close>

lemma visited_children_set:
  "set (visited_children ps cs) = (\<Union>x\<in>{x \<in> set cs. \<not> skipped x}. set (visited ps x))"
  by (induction cs) auto

lemma subtree_children_set:
  "set (subtree_children ps cs) = (\<Union>x\<in>set cs. set (subtree ps x))"
  by (induction cs) auto

lemma visited_not_skipped:
  "(ps', c) \<in> set (visited ps cmd) \<Longrightarrow> (ps', c) = (ps, cmd) \<or> \<not> skipped c"
proof (induction cmd arbitrary: ps)
  case (Command i cs)
  show ?case
  proof (cases "(ps', c) = (ps, Command i cs)")
    case True
    then show ?thesis by simp
  next
    case False
    with Command.prems have "(ps', c) \<in> set (visited_children (i # ps) cs)" by auto
    then obtain x where x: "x \<in> set cs" "\<not> skipped x" "(ps', c) \<in> set (visited (i # ps) x)"
      by (auto simp: visited_children_set)
    from Command.IH[OF x(1) x(3)] x(2) show ?thesis by auto
  qed
qed

lemma visited_subtree: "set (visited ps cmd) \<subseteq> set (subtree ps cmd)"
proof (induction cmd arbitrary: ps)
  case (Command i cs)
  have "set (visited_children (i # ps) cs) \<subseteq> set (subtree_children (i # ps) cs)"
    using Command.IH by (fastforce simp: visited_children_set subtree_children_set)
  then show ?case by auto
qed

lemma ex_run_ok: "snd (snd (GenTreeCustom ex_env ''out'' emptyStr defaultLinkHandler [] ex_app [])) = None"
  by (simp add: ex_app_def ex_sub_def skipped_def ex_sub_info_def ex_app_info_def os_Create_def
      file_Write_def GenCustom_file ex_env_def Let_def)

text \<open>
  C1, as the code has it. On a run of the tree walker that returns no error, the files
  created are, in this order, the files of the commands in \<open>visited\<close>: one for the
  root of the walk, whether or not that command is available, and one for every command
  below it that is reached through children that are not skipped. Every visited command
  other than the root is available and no help topic, and every visited command is a
  command of the subtree.
\<close>

theorem GenTreeCustom_pages:
  assumes "GenTreeCustom E dir filePrepender linkHandler ps cmd w = (w', cmd', None)"
  shows "created w' = created w @ files E dir (visited ps cmd)
    \<and> (\<forall>(ps', c) \<in> set (visited ps cmd). (ps', c) = (ps, cmd) \<or> \<not> skipped c)
    \<and> set (visited ps cmd) \<subseteq> set (subtree ps cmd)"
proof -
  from walk[OF assms] obtain new where "w' = w @ new"
    "completed (files E dir (visited ps cmd)) new"
    by (auto simp: walk_ok_def)
  then have "created w' = created w @ files E dir (visited ps cmd)"
    by (simp add: created_append completed_created)
  moreover have "\<forall>(ps', c) \<in> set (visited ps cmd). (ps', c) = (ps, cmd) \<or> \<not> skipped c"
    using visited_not_skipped[of _ _ ps cmd] by blast
  ultimately show ?thesis using visited_subtree[of ps cmd] by blast
qed

theorem GenTreeCustom_pages_witness:
  "created (fst (GenTree ex_env [] ex_app ''out'' [])) = [''out/app-sub.txt'', ''out/app.txt'']"
proof -
  have h: "GenTreeCustom ex_env ''out'' emptyStr defaultLinkHandler [] ex_app []
      = (fst (GenTree ex_env [] ex_app ''out'' []), fst (snd (GenTree ex_env [] ex_app ''out'' [])), None)"
    using ex_run_ok by (simp add: GenTree_def prod_eq_iff)
  from GenTreeCustom_pages[OF h] show ?thesis
    by (simp add: files_def filename_of_eq CommandPath_def ex_app_def ex_sub_def skipped_def
        ex_sub_info_def ex_app_info_def ex_env_def)
qed

text \<open>
  C1 as stated fails. The root \<open>tool\<close> is unavailable and still gets its page;
  \<open>tool grp run\<close> is a command of the subtree, available and no help topic, and gets
  no page, because its parent \<open>tool grp\<close> is skipped with everything below it.
\<close>

theorem GenTree_eligible_counterexample:
  "skipped ex_tool \<and> \<not> skipped ex_run
    \<and> ([ex_grp_info, ex_tool_info], ex_run) \<in> set (subtree [] ex_tool)
    \<and> snd (snd (GenTree ex_env [] ex_tool ''out'' [])) = None
    \<and> created (fst (GenTree ex_env [] ex_tool ''out'' [])) = [''out/tool.txt'']"
  by (simp add: GenTree_def ex_tool_def ex_run_def ex_grp_info_def ex_tool_info_def skipped_def
      ex_sub_info_def ex_app_info_def os_Create_def file_Write_def GenCustom_file ex_env_def
      Let_def filename_of_eq CommandPath_def emptyStr_def)

text \<open>
  C6. Every file the walker creates is the file of a visited command, in the order of
  the visit: its path is \<open>filepath.Join\<close> of the output directory and the command's
  full path with every space replaced by a hyphen, followed by \<open>.txt\<close>. A run
  without error creates the files of all visited commands.
\<close>

theorem GenTreeCustom_file_paths:
  assumes "GenTreeCustom E dir filePrepender linkHandler ps cmd w = (w', cmd', r)"
  shows "\<exists>new. w' = w @ new
     \<and> prefix (created new)
         (map (\<lambda>(ps', c). filepath_Join E dir
                 (map (\<lambda>x. if x = CHR '' '' then CHR ''-'' else x) (CommandPath ps' c) @ ''.txt''))
              (visited ps cmd))
     \<and> (r = None \<longrightarrow> created new =
         (map (\<lambda>(ps', c). filepath_Join E dir
                 (map (\<lambda>x. if x = CHR '' '' then CHR ''-'' else x) (CommandPath ps' c) @ ''.txt''))
              (visited ps cmd)))"
proof -
  have eq: "(map (\<lambda>(ps', c). filepath_Join E dir
                 (map (\<lambda>x. if x = CHR '' '' then CHR ''-'' else x) (CommandPath ps' c) @ ''.txt''))
              (visited ps cmd)) = files E dir (visited ps cmd)"
    by (simp add: files_def filename_of_eq)
  from walk[OF assms] obtain new where n: "w' = w @ new"
    "case r of None \<Rightarrow> completed (files E dir (visited ps cmd)) new
       | Some e \<Rightarrow> aborted E w (files E dir (visited ps cmd)) new e"
    by (auto simp: walk_ok_def)
  show ?thesis
  proof (cases r)
    case None
    with n have "created new = files E dir (visited ps cmd)" by (simp add: completed_created)
    with n(1) show ?thesis unfolding eq by auto
  next
    case (Some e)
    with n have "prefix (created new) (files E dir (visited ps cmd))"
      by (simp add: aborted_created)
    with n(1) Some show ?thesis unfolding eq by auto
  qed
qed

theorem GenTreeCustom_file_paths_witness:
  "created (fst (GenTreeCustom ex_env ''docs'' emptyStr defaultLinkHandler [] ex_app []))
     = [''docs/app-sub.txt'', ''docs/app.txt'']"
proof -
  let ?X = "GenTreeCustom ex_env ''docs'' emptyStr defaultLinkHandler [] ex_app []"
  have r: "snd (snd ?X) = None"
    by (simp add: ex_app_def ex_sub_def skipped_def ex_sub_info_def ex_app_info_def os_Create_def
      file_Write_def GenCustom_file ex_env_def Let_def)
  then have h: "?X = (fst ?X, fst (snd ?X), None)" by (simp add: prod_eq_iff)
  from GenTreeCustom_file_paths[OF h] show ?thesis
    by (simp add: CommandPath_def ex_app_def ex_sub_def skipped_def
        ex_sub_info_def ex_app_info_def ex_env_def)
qed

text \<open>
  C9. A run of the walker returns no error only when every page is complete. A run that
  returns an error \<open>e\<close> stopped at the first failure: for some \<open>k\<close>, the pages of
  the first \<open>k\<close> visited commands are complete, the page of the next one failed with
  \<open>e\<close> (its file could not be created, or one of its two writes failed and the file
  was closed), and nothing was done after that.
\<close>

theorem GenTreeCustom_first_error:
  assumes "GenTreeCustom E dir filePrepender linkHandler ps cmd w = (w', cmd', r)"
  shows "\<exists>new. w' = w @ new
     \<and> (case r of
          None \<Rightarrow> completed (files E dir (visited ps cmd)) new
        | Some e \<Rightarrow>
            (\<exists>k front part. k < length (visited ps cmd) \<and> new = front @ part
               \<and> completed (take k (files E dir (visited ps cmd))) front
               \<and> failed_page E (w @ front) (files E dir (visited ps cmd) ! k) part e))"
proof -
  from walk[OF assms] obtain new where n: "w' = w @ new"
    "case r of None \<Rightarrow> completed (files E dir (visited ps cmd)) new
       | Some e \<Rightarrow> aborted E w (files E dir (visited ps cmd)) new e"
    by (auto simp: walk_ok_def)
  show ?thesis
  proof (cases r)
    case None
    with n show ?thesis by auto
  next
    case (Some e)
    with n have "aborted E w (files E dir (visited ps cmd)) new e" by simp
    then have "\<exists>k front part. k < length (visited ps cmd) \<and> new = front @ part
               \<and> completed (take k (files E dir (visited ps cmd))) front
               \<and> failed_page E (w @ front) (files E dir (visited ps cmd) ! k) part e"
      unfolding aborted_def by (auto simp: files_def)
    with n(1) Some show ?thesis by auto
  qed
qed

theorem GenTreeCustom_first_error_witness:
  "snd (snd (GenTree ex_env_denied [] ex_app ''out'' [])) = Some (IOError ''permission denied'')
   \<and> created (fst (GenTree ex_env_denied [] ex_app ''out'' [])) = [''out/app-sub.txt'']
   \<and> (\<exists>k front part. k < 2 \<and> fst (GenTree ex_env_denied [] ex_app ''out'' []) = front @ part
        \<and> completed (take k [''out/app-sub.txt'', ''out/app.txt'']) front
        \<and> failed_page ex_env_denied front ([''out/app-sub.txt'', ''out/app.txt''] ! k) part
             (IOError ''permission denied''))"
proof -
  let ?X = "GenTreeCustom ex_env_denied ''out'' emptyStr defaultLinkHandler [] ex_app []"
  have r: "snd (snd ?X) = Some (IOError ''permission denied'')"
    by (simp add: ex_app_def ex_sub_def skipped_def ex_sub_info_def ex_app_info_def os_Create_def
      file_Write_def GenCustom_file ex_env_def ex_env_denied_def Let_def filename_of_eq
      CommandPath_def)
  have c: "created (fst ?X) = [''out/app-sub.txt'']"
    by (simp add: ex_app_def ex_sub_def skipped_def ex_sub_info_def ex_app_info_def os_Create_def
      file_Write_def GenCustom_file ex_env_def ex_env_denied_def Let_def filename_of_eq
      CommandPath_def)
  from r have h: "?X = (fst ?X, fst (snd ?X), Some (IOError ''permission denied''))"
    by (simp add: prod_eq_iff)
  have f: "files ex_env_denied ''out'' (visited [] ex_app) = [''out/app-sub.txt'', ''out/app.txt'']"
    by (simp add: files_def filename_of_eq CommandPath_def ex_app_def ex_sub_def skipped_def
        ex_sub_info_def ex_app_info_def ex_env_def ex_env_denied_def)
  have l: "length (visited [] ex_app) = 2"
    by (simp add: ex_app_def ex_sub_def skipped_def ex_sub_info_def)
  from GenTreeCustom_first_error[OF h] r c show ?thesis
    unfolding f l by (simp add: GenTree_def)
qed

subsection \<open>The rendered page\<close>

lemma fst_render:
  "fst (render E now ps cmd lh) =
     page_top ps (after_init E ps cmd) @ fst (printOptionsReST E [] (after_init E ps cmd))
       @ examples_part (after_init E ps cmd) @ seeAlso_part E lh ps (after_init E ps cmd)
       @ (if DisableAutoGenTag (info (rendered E ps (after_init E ps cmd))) then [] else footer now)"
  by (simp add: render_eq Let_def)

lemma snd_render: "fst (snd (render E now ps cmd lh)) = rendered E ps (after_init E ps cmd)"
  by (simp add: render_eq Let_def)

lemma rendered_tag:
  "DisableAutoGenTag (info (rendered E ps c)) =
     (DisableAutoGenTag (info c) \<or> (ps \<noteq> [] \<and> (\<exists>p\<in>set ps. DisableAutoGenTag p)))"
  by (auto simp: rendered_def list_ex_iff)

lemma ex_date_format: "Format_2_Jan_2006 ex_date = ''1-Nov-2026''"
  by (simp add: Format_2_Jan_2006_def ex_date_def decimal.simps)

text \<open>
  C7, as the code has it. The page starts with the anchor and the title: the full command
  path between two rules of \<open>=\<close>. Each rule has as many \<open>=\<close> as the path has bytes
  (\<open>len(name)\<close>); that is the number of characters of the path when the path is ASCII.
\<close>

theorem title_rule_length:
  assumes "name = CommandPath ps (after_init E ps cmd)"
  shows "\<exists>top bottom rest.
     fst (render E now ps cmd linkHandler) =
       ''.. _'' @ ReplaceAll name '' '' ''_'' @ '':\<newline>\<newline>''
         @ top @ ''\<newline>'' @ name @ ''\<newline>'' @ bottom @ ''\<newline>\<newline>'' @ rest
     \<and> top = replicate (length name) (CHR ''='')
     \<and> bottom = replicate (length name) (CHR ''='')
     \<and> length top = length name \<and> length bottom = length name
     \<and> ((\<forall>c\<in>set name. of_char c < (128 :: nat))
          \<longrightarrow> length top = character_count name \<and> length bottom = character_count name)"
proof -
  have "(\<forall>c\<in>set name. of_char c < (128 :: nat)) \<longrightarrow> character_count name = length name"
    by (auto simp: character_count_def intro!: arg_cong[where f = length] filter_True)
  then show ?thesis
    unfolding fst_render page_top_def assms by simp
qed

theorem title_rule_length_witness:
  "(\<exists>rest. fst (render ex_env ex_date [ex_app_info] ex_sub defaultLinkHandler) =
     ''.. _app_sub:\<newline>\<newline>=======\<newline>app sub\<newline>=======\<newline>\<newline>'' @ rest)
   \<and> character_count ''app sub'' = 7"
proof -
  have n: "''app sub'' = CommandPath [ex_app_info] (after_init ex_env [ex_app_info] ex_sub)"
    by (simp add: CommandPath_def after_init_def ex_env_def ex_sub_def ex_sub_info_def
        ex_app_info_def)
  have a: "\<forall>c\<in>set ''app sub''. of_char c < (128 :: nat)" by simp
  from title_rule_length[OF n, of ex_date defaultLinkHandler] a
  obtain top bottom rest where t:
    "fst (render ex_env ex_date [ex_app_info] ex_sub defaultLinkHandler) =
       ''.. _'' @ ReplaceAll ''app sub'' '' '' ''_'' @ '':\<newline>\<newline>''
         @ top @ ''\<newline>'' @ ''app sub'' @ ''\<newline>'' @ bottom @ ''\<newline>\<newline>'' @ rest"
    "top = replicate (length ''app sub'') (CHR ''='')"
    "bottom = replicate (length ''app sub'') (CHR ''='')"
    "length top = character_count ''app sub''"
    by blast
  from t(1,2,3) have 1: "\<exists>rest. fst (render ex_env ex_date [ex_app_info] ex_sub defaultLinkHandler) =
     ''.. _app_sub:\<newline>\<newline>=======\<newline>app sub\<newline>=======\<newline>\<newline>'' @ rest"
    by (simp add: ReplaceAll_char eval_nat_numeral)
  from t(2,4) have 2: "character_count ''app sub'' = 7" by simp
  from 1 2 show ?thesis by (rule conjI)
qed

text \<open>
  C7 as stated fails. For the command whose name is an accented e the heading is one character, two
  bytes in UTF-8, and both rules are \<open>==\<close>.
\<close>

theorem title_rule_length_counterexample:
  "(\<exists>rest. fst (render ex_env ex_date [] ex_accent defaultLinkHandler) =
      ''.. _'' @ [CHR 0xC3, CHR 0xA9] @ '':\<newline>\<newline>''
        @ ''=='' @ ''\<newline>'' @ [CHR 0xC3, CHR 0xA9] @ ''\<newline>'' @ ''=='' @ ''\<newline>\<newline>'' @ rest)
   \<and> CommandPath [] ex_accent = [CHR 0xC3, CHR 0xA9]
   \<and> character_count [CHR 0xC3, CHR 0xA9] = 1
   \<and> length ''=='' = 2"
proof -
  have cp: "CommandPath [] (after_init ex_env [] ex_accent) = [CHR 0xC3, CHR 0xA9]"
    by (simp add: CommandPath_def after_init_def ex_env_def ex_accent_def)
  have 1: "\<exists>rest. fst (render ex_env ex_date [] ex_accent defaultLinkHandler) =
      ''.. _'' @ [CHR 0xC3, CHR 0xA9] @ '':\<newline>\<newline>''
        @ ''=='' @ ''\<newline>'' @ [CHR 0xC3, CHR 0xA9] @ ''\<newline>'' @ ''=='' @ ''\<newline>\<newline>'' @ rest"
    unfolding fst_render page_top_def cp by (simp add: ReplaceAll_char eval_nat_numeral)
  have 2: "CommandPath [] ex_accent = [CHR 0xC3, CHR 0xA9]"
    by (simp add: CommandPath_def ex_accent_def)
  have 3: "character_count [CHR 0xC3, CHR 0xA9] = 1"
    by (simp add: character_count_def)
  have 4: "length ''=='' = 2" by simp
  from 1 2 3 4 show ?thesis by (intro conjI)
qed

text \<open>
  C10. \<open>printOptionsReST\<close> appends the "Options" table when the command's own flag set
  has an available flag, under a rule of as many tildes as "Options" has letters, and the
  "Inherited Options" table when the inherited flag set has an available flag, under a
  rule of 38 tildes, whatever the 17 characters of that heading. On the page the output of
  \<open>printOptionsReST\<close> is followed by the "Examples" block, when the example text is not
  empty, under a rule of as many tildes as "Examples" has letters.
\<close>

theorem section_rule_lengths:
  "fst (printOptionsReST E buf c) =
     buf @ (if HasAvailableFlags E (NonInheritedFlags (info c))
            then ''Options\<newline>'' @ replicate (length ''Options'') (CHR ''~'')
                   @ ''\<newline>\<newline>.. list-table::\<newline>'' @ table_header
                   @ indentString (FlagUsages E (NonInheritedFlags (info c))) '' '' @ ''\<newline>''
            else [])
         @ (if HasAvailableFlags E (InheritedFlags (info c))
            then ''Inherited Options\<newline>'' @ replicate 38 (CHR ''~'')
                   @ ''\<newline>\<newline>.. list-table::\<newline>'' @ table_header
                   @ indentString (FlagUsages E (InheritedFlags (info c))) '' '' @ ''\<newline>''
            else [])
   \<and> length ''Inherited Options'' = 17
   \<and> (\<exists>top rest. fst (render E now ps cmd linkHandler) =
         fst (printOptionsReST E top (after_init E ps cmd))
           @ (if Example (info (after_init E ps cmd)) \<noteq> []
              then ''Examples\<newline>'' @ replicate (length ''Examples'') (CHR ''~'')
                     @ ''\<newline>\<newline>.. code-block::\<newline>''
                     @ indentString (Example (info (after_init E ps cmd))) '' ''
                     @ ''\<newline>\<newline>''
              else [])
           @ rest)"
proof -
  have a: "fst (printOptionsReST E buf c) =
     buf @ (if HasAvailableFlags E (NonInheritedFlags (info c))
            then ''Options\<newline>'' @ replicate (length ''Options'') (CHR ''~'')
                   @ ''\<newline>\<newline>.. list-table::\<newline>'' @ table_header
                   @ indentString (FlagUsages E (NonInheritedFlags (info c))) '' '' @ ''\<newline>''
            else [])
         @ (if HasAvailableFlags E (InheritedFlags (info c))
            then ''Inherited Options\<newline>'' @ replicate 38 (CHR ''~'')
                   @ ''\<newline>\<newline>.. list-table::\<newline>'' @ table_header
                   @ indentString (FlagUsages E (InheritedFlags (info c))) '' '' @ ''\<newline>''
            else [])"
    by (simp add: printOptionsReST_def Let_def eval_nat_numeral)
  have b: "fst (render E now ps cmd linkHandler) =
         fst (printOptionsReST E (page_top ps (after_init E ps cmd)) (after_init E ps cmd))
           @ (if Example (info (after_init E ps cmd)) \<noteq> []
              then ''Examples\<newline>'' @ replicate (length ''Examples'') (CHR ''~'')
                     @ ''\<newline>\<newline>.. code-block::\<newline>''
                     @ indentString (Example (info (after_init E ps cmd))) '' ''
                     @ ''\<newline>\<newline>''
              else [])
           @ (seeAlso_part E linkHandler ps (after_init E ps cmd)
               @ (if DisableAutoGenTag (info (rendered E ps (after_init E ps cmd))) then []
                  else footer now))"
    unfolding fst_render
      printOptionsReST_append[of E "page_top ps (after_init E ps cmd)" "after_init E ps cmd"]
      examples_part_def
    by simp
  have c: "length ''Inherited Options'' = 17" by simp
  from a b c show ?thesis by blast
qed

theorem section_rule_lengths_witness:
  "fst (printOptionsReST ex_env [] ex_inherits) =
     ''Options\<newline>~~~~~~~\<newline>\<newline>.. list-table::\<newline>'' @ table_header @ '' --name\<newline>\<newline>''
      @ ''Inherited Options\<newline>~~~~~~~~~~~~~~~~~~~~~~~~~~~~~~~~~~~~~~\<newline>\<newline>.. list-table::\<newline>''
      @ table_header @ '' --profile\<newline>\<newline>''"
  using section_rule_lengths[of ex_env "[]" ex_inherits ex_date "[]" ex_inherits defaultLinkHandler]
  by (simp add: ex_inherits_def ex_sub_info_def ex_env_def indentString_def eval_nat_numeral)

text \<open>
  C4. When some ancestor of the command has \<open>DisableAutoGenTag\<close> set, rendering sets the
  command's own flag. The page is a body that does not depend on the date, followed by the
  footer exactly when the command's flag is false after rendering; the footer gives
  the date as the day without padding, the month's three-letter name and the year in
  four digits.
\<close>

theorem footer_iff_tag_enabled:
  "((\<exists>p\<in>set ps. DisableAutoGenTag p)
      \<longrightarrow> DisableAutoGenTag (info (fst (snd (render E now ps cmd linkHandler)))))
   \<and> (\<exists>body. \<forall>t. fst (render E t ps cmd linkHandler) =
         body @ (if DisableAutoGenTag (info (fst (snd (render E t ps cmd linkHandler)))) then []
                 else ''*Auto generated by MongoDB CLI on ''
                        @ decimal (Day t) @ ''-'' @ month_abbrev (Month t) @ ''-''
                        @ replicate (4 - length (decimal (Year t))) (CHR ''0'') @ decimal (Year t)
                        @ ''*\<newline>''))"
proof -
  let ?c = "after_init E ps cmd"
  have a: "(\<exists>p\<in>set ps. DisableAutoGenTag p)
      \<longrightarrow> DisableAutoGenTag (info (fst (snd (render E now ps cmd linkHandler))))"
    unfolding snd_render rendered_tag by auto
  let ?body = "page_top ps ?c @ fst (printOptionsReST E [] ?c) @ examples_part ?c
            @ seeAlso_part E linkHandler ps ?c"
  have key: "\<forall>t. fst (render E t ps cmd linkHandler) =
         ?body @ (if DisableAutoGenTag (info (fst (snd (render E t ps cmd linkHandler)))) then []
                 else ''*Auto generated by MongoDB CLI on ''
                        @ decimal (Day t) @ ''-'' @ month_abbrev (Month t) @ ''-''
                        @ replicate (4 - length (decimal (Year t))) (CHR ''0'') @ decimal (Year t)
                        @ ''*\<newline>'')"
    unfolding snd_render fst_render footer_def Format_2_Jan_2006_def by simp
  have b: "\<exists>body. \<forall>t. fst (render E t ps cmd linkHandler) =
         body @ (if DisableAutoGenTag (info (fst (snd (render E t ps cmd linkHandler)))) then []
                 else ''*Auto generated by MongoDB CLI on ''
                        @ decimal (Day t) @ ''-'' @ month_abbrev (Month t) @ ''-''
                        @ replicate (4 - length (decimal (Year t))) (CHR ''0'') @ decimal (Year t)
                        @ ''*\<newline>'')"
    by (rule exI[of _ ?body]) (rule key)
  from a b show ?thesis by (rule conjI)
qed

theorem footer_iff_tag_enabled_witness:
  "DisableAutoGenTag (info (fst (snd (render ex_env ex_date [ex_parent_off] ex_sub defaultLinkHandler))))
   \<and> (\<exists>body. fst (render ex_env ex_date [ex_parent_off] ex_sub defaultLinkHandler) = body @ [])
   \<and> (\<exists>body. fst (render ex_env ex_date [ex_app_info] ex_sub defaultLinkHandler) =
         body @ ''*Auto generated by MongoDB CLI on 1-Nov-2026*\<newline>'')"
proof -
  have p: "\<exists>p\<in>set [ex_parent_off]. DisableAutoGenTag p"
    by (simp add: ex_parent_off_def)
  have q: "\<not> DisableAutoGenTag (info (fst (snd (render ex_env ex_date [ex_app_info] ex_sub defaultLinkHandler))))"
    by (simp add: snd_render rendered_tag after_init_def ex_env_def ex_sub_def ex_sub_info_def
        ex_app_info_def)
  have d: "decimal (Day ex_date) = ''1''" "decimal (Year ex_date) = ''2026''"
    "month_abbrev (Month ex_date) = ''Nov''"
    by (simp_all add: ex_date_def decimal.simps)
  from footer_iff_tag_enabled[where ps = "[ex_parent_off]" and now = ex_date and E = ex_env
      and cmd = ex_sub and linkHandler = defaultLinkHandler] p
  have 1: "DisableAutoGenTag (info (fst (snd (render ex_env ex_date [ex_parent_off] ex_sub defaultLinkHandler))))"
    by blast
  from footer_iff_tag_enabled[where ps = "[ex_app_info]" and now = ex_date and E = ex_env
      and cmd = ex_sub and linkHandler = defaultLinkHandler]
  obtain body where "\<forall>t. fst (render ex_env t [ex_app_info] ex_sub defaultLinkHandler) =
         body @ (if DisableAutoGenTag (info (fst (snd (render ex_env t [ex_app_info] ex_sub defaultLinkHandler)))) then []
                 else ''*Auto generated by MongoDB CLI on ''
                        @ decimal (Day t) @ ''-'' @ month_abbrev (Month t) @ ''-''
                        @ replicate (4 - length (decimal (Year t))) (CHR ''0'') @ decimal (Year t)
                        @ ''*\<newline>'')"
    by blast
  then have "fst (render ex_env ex_date [ex_app_info] ex_sub defaultLinkHandler) =
         body @ ''*Auto generated by MongoDB CLI on 1-Nov-2026*\<newline>''"
    using q d by simp
  then have 2: "\<exists>body. fst (render ex_env ex_date [ex_app_info] ex_sub defaultLinkHandler) =
         body @ ''*Auto generated by MongoDB CLI on 1-Nov-2026*\<newline>''" by blast
  from 1 2 show ?thesis by simp
qed

subsection \<open>The walk that nothing interrupts\<close>













subsection \<open>The "See Also" block\<close>

lemma byName_sorted:
  "sorted_wrt (\<lambda>a b. \<not> byName_Less b a) xs = sorted (map (\<lambda>x. Name (info x)) xs)"
  by (simp add: sorted_wrt_map byName_Less_def not_less)

lemma ex_unsorted_sorted:
  "sort_Sort ex_env byName_Less (Commands ex_unsorted) = [ex_alpha, ex_hidden, ex_zeta]"
  by (simp add: ex_env_def ex_sort_def byName_Less_def ex_unsorted_def ex_alpha_def ex_zeta_def
      ex_hidden_def ex_sub_info_def less_char_def)

lemma ex_twins_sorted:
  "sort_Sort ex_env byName_Less (Commands ex_twins) = [ex_sub, ex_sub]"
  by (simp add: ex_env_def ex_sort_def byName_Less_def ex_twins_def)

text \<open>
  C5, as the code has it. After the title, the option tables and the examples, the page
  has the "See Also" block exactly when the command has a parent or a child that is not
  skipped, and then the footer. The block lists the parent first, when there is one, and
  then the children that are not skipped, in the order in which \<open>sort.Sort\<close> left
  them. When \<open>sort.Sort\<close> keeps its promise on the children (a permutation in which no
  later child has a smaller name), these are exactly the children that are not skipped,
  in ascending order of their names (bytewise, so case-sensitive), whatever the order in
  which the tree stores them; the order is strictly ascending when no two listed
  children have the same name.
\<close>

theorem seeAlso_listing:
  assumes "c = after_init E ps cmd"
    and "mset (sort_Sort E byName_Less (Commands c)) = mset (Commands c)"
    and "sorted_wrt (\<lambda>a b. \<not> byName_Less b a) (sort_Sort E byName_Less (Commands c))"
  shows "mset (listed E c) = mset (filter (\<lambda>x. \<not> skipped x) (Commands c))
    \<and> sorted (map (\<lambda>x. Name (info x)) (listed E c))
    \<and> (distinct (map (\<lambda>x. Name (info x)) (listed E c))
         \<longrightarrow> sorted_wrt (<) (map (\<lambda>x. Name (info x)) (listed E c)))
    \<and> (\<forall>linkHandler t. fst (render E t ps cmd linkHandler) =
          page_top ps c @ fst (printOptionsReST E [] c) @ examples_part c
            @ (if ps \<noteq> [] \<or> (\<exists>x\<in>set (Commands c). \<not> skipped x)
               then ''See Also\<newline>~~~~~~~~\<newline>\<newline>''
                      @ (if ps \<noteq> [] then link_line linkHandler (path_of ps) (Short (hd ps)) else [])
                      @ concat (map (\<lambda>x. link_line linkHandler
                                         (CommandPath ps c @ '' '' @ Name (info x)) (Short (info x)))
                                  (listed E c))
                      @ ''\<newline>''
               else [])
            @ (if DisableAutoGenTag (info (fst (snd (render E t ps cmd linkHandler)))) then []
               else footer t))"
proof -
  have m: "mset (listed E c) = mset (filter (\<lambda>x. \<not> skipped x) (Commands c))"
    unfolding listed_def mset_filter assms(2) ..
  from assms(3) have "sorted (map (\<lambda>x. Name (info x)) (sort_Sort E byName_Less (Commands c)))"
    by (simp add: byName_sorted)
  then have s: "sorted (map (\<lambda>x. Name (info x)) (listed E c))"
    unfolding listed_def by (rule sorted_filter)
  then have d: "distinct (map (\<lambda>x. Name (info x)) (listed E c))
         \<longrightarrow> sorted_wrt (<) (map (\<lambda>x. Name (info x)) (listed E c))"
    by (simp add: strict_sorted_iff)
  have p: "\<forall>linkHandler t. fst (render E t ps cmd linkHandler) =
          page_top ps c @ fst (printOptionsReST E [] c) @ examples_part c
            @ (if ps \<noteq> [] \<or> (\<exists>x\<in>set (Commands c). \<not> skipped x)
               then ''See Also\<newline>~~~~~~~~\<newline>\<newline>''
                      @ (if ps \<noteq> [] then link_line linkHandler (path_of ps) (Short (hd ps)) else [])
                      @ concat (map (\<lambda>x. link_line linkHandler
                                         (CommandPath ps c @ '' '' @ Name (info x)) (Short (info x)))
                                  (listed E c))
                      @ ''\<newline>''
               else [])
            @ (if DisableAutoGenTag (info (fst (snd (render E t ps cmd linkHandler)))) then []
               else footer t)"
    unfolding snd_render fst_render assms(1) seeAlso_part_def
    by (simp add: filter_empty_conv)
  from m s d p show ?thesis by (intro conjI)
qed

theorem seeAlso_listing_witness:
  "listed ex_env ex_unsorted = [ex_alpha, ex_zeta]
   \<and> sorted_wrt (<) (map (\<lambda>x. Name (info x)) (listed ex_env ex_unsorted))
   \<and> (\<exists>pre. fst (render ex_env ex_date [] ex_unsorted defaultLinkHandler) =
         pre @ ''See Also\<newline>~~~~~~~~\<newline>\<newline>''
           @ ''* `app alpha <app_alpha.txt>`_ '' @ [CHR 0x09] @ '' - First\<newline>''
           @ ''* `app zeta <app_zeta.txt>`_ '' @ [CHR 0x09] @ '' - Last\<newline>''
           @ ''\<newline>''
           @ ''*Auto generated by MongoDB CLI on 1-Nov-2026*\<newline>'')"
proof -
  have c: "ex_unsorted = after_init ex_env [] ex_unsorted"
    by (simp add: after_init_def ex_env_def)
  have l: "listed ex_env ex_unsorted = [ex_alpha, ex_zeta]"
    unfolding listed_def ex_unsorted_sorted
    by (simp add: skipped_def ex_alpha_def ex_zeta_def ex_hidden_def ex_sub_info_def)
  have a1: "mset (sort_Sort ex_env byName_Less (Commands ex_unsorted)) = mset (Commands ex_unsorted)"
    unfolding ex_unsorted_sorted by (simp add: ex_unsorted_def)
  have a2: "sorted_wrt (\<lambda>a b. \<not> byName_Less b a) (sort_Sort ex_env byName_Less (Commands ex_unsorted))"
    unfolding ex_unsorted_sorted
    by (simp add: byName_Less_def ex_alpha_def ex_zeta_def ex_hidden_def ex_sub_info_def
        less_char_def)
  have t: "\<not> DisableAutoGenTag (info (fst (snd (render ex_env ex_date [] ex_unsorted defaultLinkHandler))))"
    by (simp add: snd_render rendered_tag after_init_def ex_env_def ex_unsorted_def ex_app_info_def)
  have d: "distinct (map (\<lambda>x. Name (info x)) (listed ex_env ex_unsorted))"
    by (simp add: l ex_alpha_def ex_zeta_def)
  have e: "\<exists>x\<in>set (Commands ex_unsorted). \<not> skipped x"
    by (simp add: ex_unsorted_def skipped_def ex_zeta_def ex_sub_info_def)
  have cp: "CommandPath [] ex_unsorted = ''app''"
    by (simp add: CommandPath_def ex_unsorted_def ex_app_info_def)
  note th = seeAlso_listing[OF c a1 a2]
  from th d have 1: "sorted_wrt (<) (map (\<lambda>x. Name (info x)) (listed ex_env ex_unsorted))"
    by blast
  note p = th[THEN conjunct2, THEN conjunct2, THEN conjunct2, rule_format,
      where t = ex_date and linkHandler = defaultLinkHandler, unfolded l cp]
  have "fst (render ex_env ex_date [] ex_unsorted defaultLinkHandler) =
         (page_top [] ex_unsorted @ fst (printOptionsReST ex_env [] ex_unsorted)
            @ examples_part ex_unsorted)
           @ ''See Also\<newline>~~~~~~~~\<newline>\<newline>''
           @ ''* `app alpha <app_alpha.txt>`_ '' @ [CHR 0x09] @ '' - First\<newline>''
           @ ''* `app zeta <app_zeta.txt>`_ '' @ [CHR 0x09] @ '' - Last\<newline>''
           @ ''\<newline>''
           @ ''*Auto generated by MongoDB CLI on 1-Nov-2026*\<newline>''"
    using p t e
    by (simp add: link_line_def defaultLinkHandler_def ReplaceAll_char
        ex_alpha_def ex_zeta_def ex_sub_info_def footer_def ex_date_format)
  then have 2: "\<exists>pre. fst (render ex_env ex_date [] ex_unsorted defaultLinkHandler) =
         pre @ ''See Also\<newline>~~~~~~~~\<newline>\<newline>''
           @ ''* `app alpha <app_alpha.txt>`_ '' @ [CHR 0x09] @ '' - First\<newline>''
           @ ''* `app zeta <app_zeta.txt>`_ '' @ [CHR 0x09] @ '' - Last\<newline>''
           @ ''\<newline>''
           @ ''*Auto generated by MongoDB CLI on 1-Nov-2026*\<newline>''"
    by (rule exI[of _ "page_top [] ex_unsorted @ fst (printOptionsReST ex_env [] ex_unsorted)
            @ examples_part ex_unsorted"])
  from l 1 2 show ?thesis by (intro conjI)
qed

text \<open>
  C5 as stated fails. A command with two available children of the same name lists
  both, so the names in the block are not in strictly ascending order.
\<close>

theorem seeAlso_strict_counterexample:
  "(\<exists>pre. fst (render ex_env ex_date [] ex_twins defaultLinkHandler) =
      pre @ ''See Also\<newline>~~~~~~~~\<newline>\<newline>''
       @ ''* `app sub <app_sub.txt>`_ '' @ [CHR 0x09] @ '' - Sub command\<newline>''
       @ ''* `app sub <app_sub.txt>`_ '' @ [CHR 0x09] @ '' - Sub command\<newline>''
       @ ''\<newline>''
       @ ''*Auto generated by MongoDB CLI on 1-Nov-2026*\<newline>'')
   \<and> map (\<lambda>x. Name (info x)) (filter (\<lambda>x. \<not> skipped x) (Commands ex_twins)) = [''sub'', ''sub'']
   \<and> \<not> sorted_wrt (<) [''sub'', ''sub'']"
proof -
  have c: "after_init ex_env [] ex_twins = ex_twins"
    by (simp add: after_init_def ex_env_def)
  have t: "\<not> DisableAutoGenTag (info (rendered ex_env [] ex_twins))"
    by (simp add: rendered_tag ex_twins_def ex_app_info_def)
  have cp: "CommandPath [] ex_twins = ''app''"
    by (simp add: CommandPath_def ex_twins_def ex_app_info_def)
  have l: "listed ex_env ex_twins = [ex_sub, ex_sub]"
    unfolding listed_def ex_twins_sorted by (simp add: skipped_def ex_sub_def ex_sub_info_def)
  have e: "filter (\<lambda>x. \<not> skipped x) (Commands ex_twins) \<noteq> []"
    by (simp add: ex_twins_def skipped_def ex_sub_def ex_sub_info_def)
  have sa: "seeAlso_part ex_env defaultLinkHandler [] ex_twins =
     ''See Also\<newline>~~~~~~~~\<newline>\<newline>''
       @ ''* `app sub <app_sub.txt>`_ '' @ [CHR 0x09] @ '' - Sub command\<newline>''
       @ ''* `app sub <app_sub.txt>`_ '' @ [CHR 0x09] @ '' - Sub command\<newline>''
       @ ''\<newline>''"
    unfolding seeAlso_part_def l cp using e
    by (simp add: link_line_def defaultLinkHandler_def ReplaceAll_char ex_sub_def ex_sub_info_def)
  have "fst (render ex_env ex_date [] ex_twins defaultLinkHandler) =
     (page_top [] ex_twins @ fst (printOptionsReST ex_env [] ex_twins) @ examples_part ex_twins)
       @ ''See Also\<newline>~~~~~~~~\<newline>\<newline>''
       @ ''* `app sub <app_sub.txt>`_ '' @ [CHR 0x09] @ '' - Sub command\<newline>''
       @ ''* `app sub <app_sub.txt>`_ '' @ [CHR 0x09] @ '' - Sub command\<newline>''
       @ ''\<newline>''
       @ ''*Auto generated by MongoDB CLI on 1-Nov-2026*\<newline>''"
    unfolding fst_render c sa
    using t by (simp add: footer_def ex_date_format)
  then have 1: "\<exists>pre. fst (render ex_env ex_date [] ex_twins defaultLinkHandler) =
      pre @ ''See Also\<newline>~~~~~~~~\<newline>\<newline>''
       @ ''* `app sub <app_sub.txt>`_ '' @ [CHR 0x09] @ '' - Sub command\<newline>''
       @ ''* `app sub <app_sub.txt>`_ '' @ [CHR 0x09] @ '' - Sub command\<newline>''
       @ ''\<newline>''
       @ ''*Auto generated by MongoDB CLI on 1-Nov-2026*\<newline>''"
    by (rule exI[of _ "page_top [] ex_twins @ fst (printOptionsReST ex_env [] ex_twins)
        @ examples_part ex_twins"])
  have 2: "map (\<lambda>x. Name (info x)) (filter (\<lambda>x. \<not> skipped x) (Commands ex_twins)) = [''sub'', ''sub'']"
    by (simp add: ex_twins_def skipped_def ex_sub_def ex_sub_info_def)
  have 3: "\<not> sorted_wrt (<) [''sub'', ''sub'']" by simp
  from 1 2 3 show ?thesis by (intro conjI)
qed

subsection \<open>What rendering changes in the tree\<close>












end
